theory Spec2Isabelle
  imports Main "HOL-Library.Multiset"
begin

section \<open>Enumerations, exceptions and dynamically typed values\<close>

text \<open>
  \<^verbatim>\<open>CardSuit\<close> and \<^verbatim>\<open>CardRank\<close> are Python enums; \<open>suit_value\<close> and \<open>rank_value\<close>
  are their \<^verbatim>\<open>.value\<close> attributes. Iterating an enum class yields the members in the
  order of their definition: \<open>all_suits\<close> and \<open>all_ranks\<close>.
\<close>

datatype CardSuit = CLUBS | DIAMONDS | HEARTS | SPADES

datatype CardRank =
  TWO | THREE | FOUR | FIVE | SIX | SEVEN | EIGHT | NINE | TEN | JACK | QUEEN | KING | ACE

fun suit_value :: "CardSuit \<Rightarrow> int" where
  "suit_value CLUBS = 1"
| "suit_value DIAMONDS = 2"
| "suit_value HEARTS = 3"
| "suit_value SPADES = 4"

fun rank_value :: "CardRank \<Rightarrow> int" where
  "rank_value TWO = 2"
| "rank_value THREE = 3"
| "rank_value FOUR = 4"
| "rank_value FIVE = 5"
| "rank_value SIX = 6"
| "rank_value SEVEN = 7"
| "rank_value EIGHT = 8"
| "rank_value NINE = 9"
| "rank_value TEN = 10"
| "rank_value JACK = 11"
| "rank_value QUEEN = 12"
| "rank_value KING = 13"
| "rank_value ACE = 14"

definition all_suits :: "CardSuit list" where
  "all_suits = [CLUBS, DIAMONDS, HEARTS, SPADES]"

definition all_ranks :: "CardRank list" where
  "all_ranks = [TWO, THREE, FOUR, FIVE, SIX, SEVEN, EIGHT, NINE, TEN, JACK, QUEEN, KING, ACE]"

text \<open>
  The exception classes the source raises. The specification's error kinds are raised as:
  \<^verbatim>\<open>InvalidArgument\<close> and \<^verbatim>\<open>EmptyCollection\<close> as \<open>ValueError\<close>, \<^verbatim>\<open>TypeMismatch\<close> as
  \<open>TypeError\<close>, \<^verbatim>\<open>IndexOutOfRange\<close> as \<open>IndexError\<close>, \<^verbatim>\<open>CheatingDetected\<close> as
  \<open>DeckCheatingError\<close>.
\<close>

datatype error = ValueError | TypeError | IndexError | DeckCheatingError

datatype Card = Card (rank: CardRank) (suit: CardSuit)

text \<open>
  Python is dynamically typed and the source tests its arguments with \<^verbatim>\<open>isinstance\<close>;
  \<open>pyval\<close> is the universe of argument values those tests distinguish.
\<close>

datatype pyval =
  PNone | PBool bool | PInt int | PStr string | PRank CardRank | PSuit CardSuit | PCard Card

text \<open>\<^verbatim>\<open>isinstance(v, int)\<close>: \<^verbatim>\<open>bool\<close> is a subclass of \<^verbatim>\<open>int\<close> (True is 1, False is 0).\<close>

fun as_int :: "pyval \<Rightarrow> int option" where
  "as_int (PInt i) = Some i"
| "as_int (PBool b) = Some (if b then 1 else 0)"
| "as_int _ = None"

section \<open>Card\<close>

fun Card_init :: "pyval \<Rightarrow> pyval \<Rightarrow> error + Card" where
  "Card_init (PRank r) (PSuit s) = Inr (Card r s)"
| "Card_init _ _ = Inl ValueError"

fun Card_eq :: "Card \<Rightarrow> pyval \<Rightarrow> error + bool" where
  "Card_eq self (PCard other) = Inr (rank self = rank other \<and> suit self = suit other)"
| "Card_eq self _ = Inl TypeError"

fun Card_lt :: "Card \<Rightarrow> pyval \<Rightarrow> error + bool" where
  "Card_lt self (PCard other) =
     (if rank_value (rank self) < rank_value (rank other) then Inr True
      else if rank_value (rank self) > rank_value (rank other) then Inr False
      else Inr (suit_value (suit self) < suit_value (suit other)))"
| "Card_lt self _ = Inl TypeError"

fun Card_gt :: "Card \<Rightarrow> pyval \<Rightarrow> error + bool" where
  "Card_gt self (PCard other) =
     (if rank_value (rank self) > rank_value (rank other) then Inr True
      else if rank_value (rank self) < rank_value (rank other) then Inr False
      else Inr (suit_value (suit self) > suit_value (suit other)))"
| "Card_gt self _ = Inl TypeError"

section \<open>Deck\<close>

text \<open>
  The fields \<^verbatim>\<open>_cards\<close> and \<^verbatim>\<open>_draw_index\<close> of a \<^verbatim>\<open>Deck\<close> object. The cursor starts at 0
  and only \<^verbatim>\<open>draw\<close> increments it, so it is a natural number.
\<close>

record Deck =
  priv_cards :: "Card list"
  priv_draw_index :: nat

text \<open>The slice \<^verbatim>\<open>self._cards[self._draw_index:]\<close>: the remaining cards.\<close>

definition remaining :: "Deck \<Rightarrow> Card list" where
  "remaining self = drop (priv_draw_index self) (priv_cards self)"

text \<open>
  The scan of \<^verbatim>\<open>fair_deck\<close> (lines 124 to 128): walk the cards with the set of cards seen so
  far; the first card already seen is the one the exception reports.
\<close>

fun find_duplicate :: "Card set \<Rightarrow> Card list \<Rightarrow> Card option" where
  "find_duplicate seen_cards [] = None"
| "find_duplicate seen_cards (c # rest) =
     (if c \<in> seen_cards then Some c
      else find_duplicate (insert c seen_cards) rest)"

text \<open>
  The decorator \<^verbatim>\<open>fair_deck\<close>. A wrapped method is a function from the deck to its outcome
  (the exception raised or the value returned) and the deck it leaves behind. The wrapper
  runs the method first; an exception of the method propagates, with whatever the method
  did to the deck. Otherwise the cards checked are \<^verbatim>\<open>self._cards\<close>: both wrapped methods
  belong to \<^verbatim>\<open>Deck\<close>, so the first branch of the wrapper's \<^verbatim>\<open>if\<close> is the one taken and the
  \<^verbatim>\<open>elif\<close> on the result is never reached.
\<close>

definition fair_deck :: "(Deck \<Rightarrow> (error + 'a) \<times> Deck) \<Rightarrow> Deck \<Rightarrow> (error + 'a) \<times> Deck" where
  "fair_deck func self =
     (case func self of
        (Inl e, self') \<Rightarrow> (Inl e, self')
      | (Inr result, self') \<Rightarrow>
          (let cards_to_check = priv_cards self' in
           if cards_to_check \<noteq> [] \<and> find_duplicate {} cards_to_check \<noteq> None
           then (Inl DeckCheatingError, self')
           else (Inr result, self')))"

text \<open>
  \<^verbatim>\<open>random.shuffle\<close> belongs to the Python library, not to this program: the rearrangement
  it makes of the list is the parameter \<open>\<pi>\<close>. The library permutes the list, which is the
  hypothesis \<open>mset (\<pi> xs) = mset xs\<close> wherever a theorem needs it.
\<close>

definition Deck_shuffle :: "(Card list \<Rightarrow> Card list) \<Rightarrow> Deck \<Rightarrow> Deck" where
  "Deck_shuffle \<pi> self = self\<lparr>priv_cards := \<pi> (priv_cards self), priv_draw_index := 0\<rparr>"

text \<open>The two nested loops of the constructor, each \<^verbatim>\<open>append\<close> adding at the end.\<close>

definition build_cards :: "Card list" where
  "build_cards =
     fold (\<lambda>suit cs. fold (\<lambda>rank cs'. cs' @ [Card rank suit]) all_ranks cs) all_suits []"

definition Deck_init :: "bool \<Rightarrow> (Card list \<Rightarrow> Card list) \<Rightarrow> Deck" where
  "Deck_init shuffle \<pi> =
     (let self = \<lparr>priv_cards = build_cards, priv_draw_index = 0\<rparr>;
          self = (if shuffle then Deck_shuffle \<pi> self else self)
      in self\<lparr>priv_draw_index := 0\<rparr>)"

definition Deck_cards_body :: "Deck \<Rightarrow> (error + Card list) \<times> Deck" where
  "Deck_cards_body self = (Inr (drop (priv_draw_index self) (priv_cards self)), self)"

definition Deck_cards :: "Deck \<Rightarrow> (error + Card list) \<times> Deck" where
  "Deck_cards = fair_deck Deck_cards_body"

definition Deck_draw :: "Deck \<Rightarrow> Card option \<times> Deck" where
  "Deck_draw self =
     (if priv_draw_index self \<ge> length (priv_cards self) then (None, self)
      else (Some (priv_cards self ! priv_draw_index self),
            self\<lparr>priv_draw_index := priv_draw_index self + 1\<rparr>))"

fun Deck_add_card_body :: "pyval \<Rightarrow> Deck \<Rightarrow> (error + unit) \<times> Deck" where
  "Deck_add_card_body (PCard c) self =
     (if c \<in> set (drop (priv_draw_index self) (priv_cards self))
      then (Inl DeckCheatingError, self)
      else (Inr (), self\<lparr>priv_cards := priv_cards self @ [c]\<rparr>))"
| "Deck_add_card_body _ self = (Inl TypeError, self)"

definition Deck_add_card :: "pyval \<Rightarrow> Deck \<Rightarrow> (error + unit) \<times> Deck" where
  "Deck_add_card v = fair_deck (Deck_add_card_body v)"

definition Deck_len :: "Deck \<Rightarrow> int" where
  "Deck_len self = int (length (priv_cards self)) - int (priv_draw_index self)"

definition Deck_getitem :: "pyval \<Rightarrow> Deck \<Rightarrow> error + Card" where
  "Deck_getitem index self =
     (case as_int index of
        None \<Rightarrow> Inl TypeError
      | Some i \<Rightarrow>
          (let actual_index = int (priv_draw_index self) + i in
           if 0 \<le> i \<and> i < Deck_len self then Inr (priv_cards self ! nat actual_index)
           else Inl IndexError))"

section \<open>Sequences of calls on a deck\<close>

text \<open>
  A caller holds one deck and calls its methods one after the other, catching whatever a
  call raises (as \<^verbatim>\<open>main\<close> does). \<open>call_deck\<close> is the deck a call leaves behind, whether it
  returned or raised; \<open>run_calls\<close> makes the calls in order.
\<close>

datatype call = Shuffle "Card list \<Rightarrow> Card list" | Draw | AddCard pyval | RemainingCards

fun call_deck :: "call \<Rightarrow> Deck \<Rightarrow> Deck" where
  "call_deck (Shuffle \<pi>) self = Deck_shuffle \<pi> self"
| "call_deck Draw self = snd (Deck_draw self)"
| "call_deck (AddCard v) self = snd (Deck_add_card v self)"
| "call_deck RemainingCards self = snd (Deck_cards self)"

definition run_calls :: "call list \<Rightarrow> Deck \<Rightarrow> Deck" where
  "run_calls calls self = fold call_deck calls self"

text \<open>
  \<open>shuffles_clean calls self\<close>: every \<^verbatim>\<open>shuffle\<close> among the calls permutes the list, and is
  made at a moment when the whole underlying sequence, drawn cards included, holds no card
  twice.
\<close>

fun shuffles_clean :: "call list \<Rightarrow> Deck \<Rightarrow> bool" where
  "shuffles_clean [] self = True"
| "shuffles_clean (Shuffle \<pi> # calls) self =
     (mset (\<pi> (priv_cards self)) = mset (priv_cards self) \<and> distinct (priv_cards self) \<and>
      shuffles_clean calls (call_deck (Shuffle \<pi>) self))"
| "shuffles_clean (c # calls) self = shuffles_clean calls (call_deck c self)"

text \<open>\<open>draw_n n\<close>: \<^verbatim>\<open>draw\<close> called \<open>n\<close> times, with the values returned, in order.\<close>

fun draw_n :: "nat \<Rightarrow> Deck \<Rightarrow> Card option list \<times> Deck" where
  "draw_n 0 self = ([], self)"
| "draw_n (Suc n) self =
     (case Deck_draw self of
        (r, self') \<Rightarrow> (case draw_n n self' of (rs, self'') \<Rightarrow> (r # rs, self'')))"

section \<open>Statistics\<close>

text \<open>
  \<^verbatim>\<open>sorted(cards)\<close> compares with \<^verbatim>\<open>__lt__\<close> only and is stable: a card goes before the
  first card of the sorted rest that is not less than it.
\<close>

definition card_less :: "Card \<Rightarrow> Card \<Rightarrow> bool" where
  "card_less a b = (Card_lt a (PCard b) = Inr True)"

fun insort_card :: "Card \<Rightarrow> Card list \<Rightarrow> Card list" where
  "insort_card c [] = [c]"
| "insort_card c (x # xs) = (if card_less x c then x # insort_card c xs else c # x # xs)"

definition sorted_cards :: "Card list \<Rightarrow> Card list" where
  "sorted_cards cs = foldr insort_card cs []"

datatype stat = StatCards "Card list" | StatLen int

text \<open>
  The loop of \<^verbatim>\<open>cards_stats\<close> over the keyword arguments, in the order they were given, with
  the dictionary \<^verbatim>\<open>results\<close> and the keys the warnings were printed for.
\<close>

fun stats_loop ::
  "Card list \<Rightarrow> Card list \<Rightarrow> (string \<times> pyval) list \<Rightarrow> (string \<rightharpoonup> stat) \<Rightarrow> string list \<Rightarrow>
   error + (string \<rightharpoonup> stat) \<times> string list" where
  "stats_loop cs srt [] results warned = Inr (results, warned)"
| "stats_loop cs srt ((key, v) # kwargs) results warned =
     (case as_int v of
        None \<Rightarrow> Inl ValueError
      | Some n \<Rightarrow>
          if n \<le> 0 then Inl ValueError
          else if key = ''max'' then
            (let n' = (if n > int (length srt) then int (length srt) else n) in
             stats_loop cs srt kwargs
               (results(''max'' \<mapsto> StatCards (drop (length srt - nat n') srt))) warned)
          else if key = ''min'' then
            (let n' = (if n > int (length srt) then int (length srt) else n) in
             stats_loop cs srt kwargs (results(''min'' \<mapsto> StatCards (take (nat n') srt))) warned)
          else if key = ''len'' then
            stats_loop cs srt kwargs (results(''len'' \<mapsto> StatLen (int (length cs)))) warned
          else stats_loop cs srt kwargs results (warned @ [key]))"

definition cards_stats ::
  "Card list \<Rightarrow> (string \<times> pyval) list \<Rightarrow> error + (string \<rightharpoonup> stat) \<times> string list" where
  "cards_stats cs kwargs =
     (if cs = [] then Inl ValueError else stats_loop cs (sorted_cards cs) kwargs Map.empty [])"

text \<open>The entry of the returned dictionary under a key (\<open>None\<close>: no such key).\<close>

definition stats_entry ::
  "string \<Rightarrow> error + (string \<rightharpoonup> stat) \<times> string list \<Rightarrow> error + stat option" where
  "stats_entry key r = (case r of Inl e \<Rightarrow> Inl e | Inr (results, warned) \<Rightarrow> Inr (results key))"

section \<open>List objects in a store\<close>

text \<open>
  Python lists are mutable objects and a variable holds a reference. For what a caller can
  do to the list the \<^verbatim>\<open>cards\<close> property returns, list objects live in a store: the address
  of a list is its position in the store, and a new list object goes at the end. A deck
  object holds the address of its \<^verbatim>\<open>_cards\<close> list and its cursor.
\<close>

type_synonym addr = nat

type_synonym store = "Card list list"

record Deck_obj =
  cards_ref :: addr
  draw_index :: nat

definition new_list :: "Card list \<Rightarrow> store \<Rightarrow> addr \<times> store" where
  "new_list xs h = (length h, h @ [xs])"

text \<open>The deck an object stands for in a store.\<close>

definition deck_at :: "store \<Rightarrow> Deck_obj \<Rightarrow> Deck" where
  "deck_at h self = \<lparr>priv_cards = h ! cards_ref self, priv_draw_index = draw_index self\<rparr>"

text \<open>
  The body of the \<^verbatim>\<open>cards\<close> property in the store: the slice is a new list object and
  \<^verbatim>\<open>list(...)\<close> copies it into another new one, whose address is returned.
\<close>

definition Deck_cards_body_obj :: "Deck_obj \<Rightarrow> store \<Rightarrow> addr \<times> store" where
  "Deck_cards_body_obj self h =
     (case new_list (drop (draw_index self) (h ! cards_ref self)) h of
        (slice, h1) \<Rightarrow> new_list (h1 ! slice) h1)"

definition Deck_cards_obj :: "Deck_obj \<Rightarrow> store \<Rightarrow> (error + addr) \<times> store" where
  "Deck_cards_obj self h =
     (case Deck_cards_body_obj self h of
        (result, h') \<Rightarrow>
          (let cards_to_check = h' ! cards_ref self in
           if cards_to_check \<noteq> [] \<and> find_duplicate {} cards_to_check \<noteq> None
           then (Inl DeckCheatingError, h')
           else (Inr result, h')))"

text \<open>
  What a caller does to a list it holds: \<^verbatim>\<open>append\<close>, \<^verbatim>\<open>del xs[i]\<close>, \<^verbatim>\<open>xs[i] = c\<close>, each on
  the object at an address (an index out of range raises and changes nothing).
\<close>

datatype mutation = Append Card | Remove nat | Replace nat Card

fun mutate_list :: "mutation \<Rightarrow> Card list \<Rightarrow> Card list" where
  "mutate_list (Append c) xs = xs @ [c]"
| "mutate_list (Remove i) xs = (if i < length xs then take i xs @ drop (Suc i) xs else xs)"
| "mutate_list (Replace i c) xs = (if i < length xs then xs[i := c] else xs)"

definition mutate :: "addr \<Rightarrow> mutation \<Rightarrow> store \<Rightarrow> store" where
  "mutate a m h = h[a := mutate_list m (h ! a)]"

text \<open>
  What a caller can observe of a deck: its length, the card at every index, the outcome of
  a \<^verbatim>\<open>draw\<close> and the cards a \<^verbatim>\<open>cards\<close> snapshot holds (or the exception it raises).
\<close>

definition Deck_len_obj :: "Deck_obj \<Rightarrow> store \<Rightarrow> int" where
  "Deck_len_obj self h = int (length (h ! cards_ref self)) - int (draw_index self)"

definition Deck_getitem_obj :: "pyval \<Rightarrow> Deck_obj \<Rightarrow> store \<Rightarrow> error + Card" where
  "Deck_getitem_obj index self h =
     (case as_int index of
        None \<Rightarrow> Inl TypeError
      | Some i \<Rightarrow>
          (let actual_index = int (draw_index self) + i in
           if 0 \<le> i \<and> i < Deck_len_obj self h then Inr ((h ! cards_ref self) ! nat actual_index)
           else Inl IndexError))"

definition Deck_draw_obj :: "Deck_obj \<Rightarrow> store \<Rightarrow> Card option \<times> Deck_obj" where
  "Deck_draw_obj self h =
     (if draw_index self \<ge> length (h ! cards_ref self) then (None, self)
      else (Some ((h ! cards_ref self) ! draw_index self),
            self\<lparr>draw_index := draw_index self + 1\<rparr>))"

definition snapshot :: "Deck_obj \<Rightarrow> store \<Rightarrow> error + Card list" where
  "snapshot self h =
     (case Deck_cards_obj self h of
        (Inl e, h') \<Rightarrow> Inl e
      | (Inr a, h') \<Rightarrow> Inr (h' ! a))"

section \<open>The canonical deck\<close>

lemma find_duplicate_None_iff:
  "find_duplicate seen xs = None \<longleftrightarrow> distinct xs \<and> set xs \<inter> seen = {}"
  by (induction xs arbitrary: seen) auto

lemma fold_append_map: "fold (\<lambda>x acc. acc @ [f x]) xs acc = acc @ map f xs"
  by (induction xs arbitrary: acc) simp_all

lemma build_cards_concat:
  "build_cards = concat (map (\<lambda>s. map (\<lambda>r. Card r s) all_ranks) all_suits)"
proof -
  have "fold (\<lambda>suit cs. cs @ map (\<lambda>r. Card r suit) all_ranks) ss acc
        = acc @ concat (map (\<lambda>s. map (\<lambda>r. Card r s) all_ranks) ss)" for ss acc
    by (induction ss arbitrary: acc) simp_all
  then show ?thesis
    by (simp add: build_cards_def fold_append_map)
qed

lemma distinct_all_ranks: "distinct all_ranks" by (simp add: all_ranks_def)
lemma distinct_all_suits: "distinct all_suits" by (simp add: all_suits_def)
lemma set_all_ranks: "set all_ranks = UNIV"
proof -
  have "r \<in> set all_ranks" for r by (cases r) (simp_all add: all_ranks_def)
  then show ?thesis by blast
qed
lemma set_all_suits: "set all_suits = UNIV"
proof -
  have "s \<in> set all_suits" for s by (cases s) (simp_all add: all_suits_def)
  then show ?thesis by blast
qed

lemma length_build_cards: "length build_cards = 52"
  by (simp add: build_cards_concat all_ranks_def all_suits_def)

lemma set_build_cards: "set build_cards = UNIV"
proof -
  have "c \<in> set build_cards" for c
  proof (cases c)
    case (Card r s)
    have "r \<in> set all_ranks" "s \<in> set all_suits"
      by (simp_all add: set_all_ranks set_all_suits)
    then show ?thesis unfolding build_cards_concat Card by auto
  qed
  then show ?thesis by blast
qed

lemma distinct_build_cards: "distinct build_cards"
  unfolding build_cards_concat
proof (rule distinct_concat)
  have ne: "all_ranks \<noteq> []" by (simp add: all_ranks_def)
  show "distinct (map (\<lambda>s. map (\<lambda>r. Card r s) all_ranks) all_suits)"
    using ne by (auto simp: distinct_map distinct_all_suits inj_on_def)
  show "\<And>ys. ys \<in> set (map (\<lambda>s. map (\<lambda>r. Card r s) all_ranks) all_suits) \<Longrightarrow> distinct ys"
    by (auto simp: distinct_map distinct_all_ranks inj_on_def)
  show "\<And>ys zs. ys \<in> set (map (\<lambda>s. map (\<lambda>r. Card r s) all_ranks) all_suits) \<Longrightarrow>
          zs \<in> set (map (\<lambda>s. map (\<lambda>r. Card r s) all_ranks) all_suits) \<Longrightarrow>
          ys \<noteq> zs \<Longrightarrow> set ys \<inter> set zs = {}"
    by auto
qed

lemma card_less_iff:
  "card_less a b \<longleftrightarrow> rank_value (rank a) < rank_value (rank b) \<or>
     (rank_value (rank a) = rank_value (rank b) \<and> suit_value (suit a) < suit_value (suit b))"
  by (auto simp: card_less_def)

section \<open>What the deck operations do\<close>

lemma build_cards_explicit:
  "build_cards =
    [Card TWO CLUBS, Card THREE CLUBS, Card FOUR CLUBS, Card FIVE CLUBS, Card SIX CLUBS,
     Card SEVEN CLUBS, Card EIGHT CLUBS, Card NINE CLUBS, Card TEN CLUBS, Card JACK CLUBS,
     Card QUEEN CLUBS, Card KING CLUBS, Card ACE CLUBS,
     Card TWO DIAMONDS, Card THREE DIAMONDS, Card FOUR DIAMONDS, Card FIVE DIAMONDS,
     Card SIX DIAMONDS, Card SEVEN DIAMONDS, Card EIGHT DIAMONDS, Card NINE DIAMONDS,
     Card TEN DIAMONDS, Card JACK DIAMONDS, Card QUEEN DIAMONDS, Card KING DIAMONDS,
     Card ACE DIAMONDS,
     Card TWO HEARTS, Card THREE HEARTS, Card FOUR HEARTS, Card FIVE HEARTS, Card SIX HEARTS,
     Card SEVEN HEARTS, Card EIGHT HEARTS, Card NINE HEARTS, Card TEN HEARTS, Card JACK HEARTS,
     Card QUEEN HEARTS, Card KING HEARTS, Card ACE HEARTS,
     Card TWO SPADES, Card THREE SPADES, Card FOUR SPADES, Card FIVE SPADES, Card SIX SPADES,
     Card SEVEN SPADES, Card EIGHT SPADES, Card NINE SPADES, Card TEN SPADES, Card JACK SPADES,
     Card QUEEN SPADES, Card KING SPADES, Card ACE SPADES]"
  by (simp add: build_cards_def all_ranks_def all_suits_def)

lemma build_cards_split: "build_cards = Card TWO CLUBS # tl build_cards"
  by (simp add: build_cards_explicit)

lemma two_clubs_not_in_tl: "Card TWO CLUBS \<notin> set (tl build_cards)"
  using distinct_build_cards build_cards_split by (metis distinct.simps(2))

lemma Deck_add_card_PCard:
  "Deck_add_card (PCard c) d =
     (if c \<in> set (remaining d) then (Inl DeckCheatingError, d)
      else if distinct (priv_cards d @ [c]) then (Inr (), d\<lparr>priv_cards := priv_cards d @ [c]\<rparr>)
      else (Inl DeckCheatingError, d\<lparr>priv_cards := priv_cards d @ [c]\<rparr>))"
  by (simp add: Deck_add_card_def fair_deck_def remaining_def find_duplicate_None_iff)

lemma Deck_add_card_not_Card:
  "\<forall>c. v \<noteq> PCard c \<Longrightarrow> Deck_add_card v d = (Inl TypeError, d)"
  by (cases v) (auto simp add: Deck_add_card_def fair_deck_def)

lemma Deck_cards_eq:
  "Deck_cards d = (if distinct (priv_cards d) then Inr (remaining d) else Inl DeckCheatingError, d)"
proof -
  have "priv_cards d = [] \<Longrightarrow> distinct (priv_cards d)" by simp
  then show ?thesis
    by (auto simp add: Deck_cards_def Deck_cards_body_def fair_deck_def remaining_def
        find_duplicate_None_iff Let_def)
qed

lemma remaining_Deck_init:
  "remaining (Deck_init sh \<pi>) = (if sh then \<pi> build_cards else build_cards)"
  by (simp add: Deck_init_def Deck_shuffle_def remaining_def)

lemma priv_cards_Deck_init:
  "priv_cards (Deck_init sh \<pi>) = (if sh then \<pi> build_cards else build_cards)"
  by (simp add: Deck_init_def Deck_shuffle_def)

lemma priv_draw_index_Deck_init: "priv_draw_index (Deck_init sh \<pi>) = 0"
  by (simp add: Deck_init_def Deck_shuffle_def Let_def)

lemma distinct_remaining_draw:
  "distinct (remaining d) \<Longrightarrow> distinct (remaining (snd (Deck_draw d)))"
proof -
  assume "distinct (remaining d)"
  moreover have "drop (Suc n) xs = tl (drop n xs)" for n and xs :: "Card list"
    by (simp add: drop_Suc tl_drop)
  ultimately show ?thesis
    by (simp add: Deck_draw_def remaining_def distinct_tl)
qed

lemma distinct_remaining_add:
  "distinct (remaining d) \<Longrightarrow> distinct (remaining (snd (Deck_add_card v d)))"
proof (cases v)
  case (PCard c)
  assume dist: "distinct (remaining d)"
  have app: "distinct (drop n (xs @ [c]))" if "distinct (drop n xs)" "c \<notin> set (drop n xs)"
    for n and xs :: "Card list"
    using that by (cases "n - length xs") simp_all
  show ?thesis
  proof (cases "c \<in> set (remaining d)")
    case True
    then show ?thesis using dist by (simp add: PCard Deck_add_card_PCard)
  next
    case False
    then have "distinct (drop (priv_draw_index d) (priv_cards d @ [c]))"
      using dist app unfolding remaining_def by blast
    then show ?thesis using False by (simp add: PCard Deck_add_card_PCard remaining_def)
  qed
qed (simp_all add: Deck_add_card_not_Card)

lemma distinct_remaining_call:
  assumes "distinct (remaining d)" and "shuffles_clean (c # calls) d"
  shows "distinct (remaining (call_deck c d))"
proof (cases c)
  case (Shuffle \<pi>)
  with assms(2) have "mset (\<pi> (priv_cards d)) = mset (priv_cards d)" "distinct (priv_cards d)"
    by simp_all
  then have "distinct (\<pi> (priv_cards d))"
    by (metis mset_eq_imp_distinct_iff)
  then show ?thesis by (simp add: Shuffle Deck_shuffle_def remaining_def)
next
  case Draw
  then show ?thesis using assms(1) by (simp add: distinct_remaining_draw)
next
  case (AddCard v)
  then show ?thesis using assms(1) by (simp add: distinct_remaining_add)
next
  case RemainingCards
  then show ?thesis using assms(1) by (simp add: Deck_cards_eq remaining_def)
qed

lemma shuffles_clean_tail:
  "shuffles_clean (c # calls) d \<Longrightarrow> shuffles_clean calls (call_deck c d)"
  by (cases c) simp_all

lemma run_calls_distinct:
  "distinct (remaining d) \<Longrightarrow> shuffles_clean calls d \<Longrightarrow>
   distinct (remaining (run_calls calls d))"
proof (induction calls arbitrary: d)
  case Nil
  then show ?case by (simp add: run_calls_def)
next
  case (Cons c calls)
  have "distinct (remaining (call_deck c d))"
    using Cons.prems by (rule distinct_remaining_call)
  moreover have "shuffles_clean calls (call_deck c d)"
    using Cons.prems(2) by (rule shuffles_clean_tail)
  ultimately have "distinct (remaining (run_calls calls (call_deck c d)))"
    by (rule Cons.IH)
  then show ?case by (simp add: run_calls_def)
qed

lemma Deck_draw_fresh_unshuffled:
  "Deck_draw (Deck_init False \<pi>) =
     (Some (Card TWO CLUBS), \<lparr>priv_cards = build_cards, priv_draw_index = 1\<rparr>)"
proof -
  have "build_cards ! 0 = Card TWO CLUBS" using build_cards_split by (metis nth_Cons_0)
  then show ?thesis by (simp add: Deck_draw_def Deck_init_def length_build_cards)
qed

lemma remaining_after_one_draw:
  "remaining \<lparr>priv_cards = build_cards, priv_draw_index = Suc 0\<rparr> = tl build_cards"
  by (simp add: remaining_def drop_Suc)

lemma add_drawn_two_clubs:
  "Deck_add_card (PCard (Card TWO CLUBS)) \<lparr>priv_cards = build_cards, priv_draw_index = Suc 0\<rparr> =
     (Inl DeckCheatingError,
      \<lparr>priv_cards = build_cards @ [Card TWO CLUBS], priv_draw_index = Suc 0\<rparr>)"
  by (simp add: Deck_add_card_PCard remaining_after_one_draw two_clubs_not_in_tl set_build_cards)

lemma Deck_init_unshuffled: "Deck_init False \<pi> = \<lparr>priv_cards = build_cards, priv_draw_index = 0\<rparr>"
  by (simp add: Deck_init_def)

lemma Deck_draw_in_range:
  "priv_draw_index d < length (priv_cards d) \<Longrightarrow>
   Deck_draw d = (Some (priv_cards d ! priv_draw_index d),
                  d\<lparr>priv_draw_index := priv_draw_index d + 1\<rparr>)"
  by (simp add: Deck_draw_def)

lemma Deck_draw_at_end:
  "length (priv_cards d) \<le> priv_draw_index d \<Longrightarrow> Deck_draw d = (None, d)"
  by (simp add: Deck_draw_def)

lemma draw_n_in_range:
  "priv_draw_index d + n \<le> length (priv_cards d) \<Longrightarrow>
   draw_n n d = (map Some (take n (remaining d)), d\<lparr>priv_draw_index := priv_draw_index d + n\<rparr>)"
proof (induction n arbitrary: d)
  case 0
  then show ?case by simp
next
  case (Suc n)
  let ?i = "priv_draw_index d"
  let ?d' = "d\<lparr>priv_draw_index := Suc ?i\<rparr>"
  have lt: "?i < length (priv_cards d)" using Suc.prems by simp
  have step: "Deck_draw d = (Some (priv_cards d ! ?i), ?d')"
    using lt by (simp add: Deck_draw_in_range)
  have "priv_draw_index ?d' + n \<le> length (priv_cards ?d')" using Suc.prems by simp
  then have rest: "draw_n n ?d' =
      (map Some (take n (remaining ?d')), ?d'\<lparr>priv_draw_index := priv_draw_index ?d' + n\<rparr>)"
    by (rule Suc.IH)
  have "remaining d = priv_cards d ! ?i # remaining ?d'"
    using lt by (simp add: remaining_def Cons_nth_drop_Suc)
  then show ?case by (simp add: step rest)
qed

lemma sorted_six:
  "sorted_cards [Card ACE SPADES, Card TWO HEARTS, Card ACE DIAMONDS, Card KING CLUBS,
                  Card THREE SPADES, Card NINE HEARTS] =
   [Card TWO HEARTS, Card THREE SPADES, Card NINE HEARTS, Card KING CLUBS,
    Card ACE DIAMONDS, Card ACE SPADES]"
  by (simp add: sorted_cards_def card_less_iff)

lemma length_mutate: "length (mutate a m h) = length h"
  by (simp add: mutate_def)

lemma nth_mutate_other: "k \<noteq> a \<Longrightarrow> mutate a m h ! k = h ! k"
  by (simp add: mutate_def)

lemma length_fold_mutate: "length (fold (mutate a) ms h) = length h"
  by (induction ms arbitrary: h) (simp_all add: length_mutate)

lemma nth_fold_mutate_other: "k \<noteq> a \<Longrightarrow> fold (mutate a) ms h ! k = h ! k"
  by (induction ms arbitrary: h) (simp_all add: nth_mutate_other)

lemma Deck_cards_body_obj_eq:
  "Deck_cards_body_obj self h =
     (Suc (length h),
      h @ [drop (draw_index self) (h ! cards_ref self), drop (draw_index self) (h ! cards_ref self)])"
  by (simp add: Deck_cards_body_obj_def new_list_def nth_append)

lemma Deck_cards_obj_eq:
  assumes "cards_ref self < length h"
  shows "Deck_cards_obj self h =
     (if h ! cards_ref self \<noteq> [] \<and> find_duplicate {} (h ! cards_ref self) \<noteq> None
      then Inl DeckCheatingError else Inr (Suc (length h)),
      h @ [drop (draw_index self) (h ! cards_ref self), drop (draw_index self) (h ! cards_ref self)])"
  using assms by (simp add: Deck_cards_obj_def Deck_cards_body_obj_eq nth_append Let_def)

lemma snapshot_eq:
  assumes "cards_ref self < length h"
  shows "snapshot self h =
     (if h ! cards_ref self \<noteq> [] \<and> find_duplicate {} (h ! cards_ref self) \<noteq> None
      then Inl DeckCheatingError else Inr (drop (draw_index self) (h ! cards_ref self)))"
  using assms by (simp add: snapshot_def Deck_cards_obj_eq nth_append)

text \<open>
  The operations on a deck object in a store are those on the deck it stands for.
\<close>

lemma Deck_len_obj_deck_at: "Deck_len_obj self h = Deck_len (deck_at h self)"
  by (simp add: Deck_len_obj_def Deck_len_def deck_at_def)

lemma Deck_getitem_obj_deck_at: "Deck_getitem_obj i self h = Deck_getitem i (deck_at h self)"
  by (simp add: Deck_getitem_obj_def Deck_getitem_def Deck_len_obj_def Deck_len_def deck_at_def
      split: option.splits)

lemma Deck_draw_obj_deck_at: "fst (Deck_draw_obj self h) = fst (Deck_draw (deck_at h self))"
  by (simp add: Deck_draw_obj_def Deck_draw_def deck_at_def)

lemma snapshot_deck_at:
  "cards_ref self < length h \<Longrightarrow> snapshot self h = fst (Deck_cards (deck_at h self))"
  by (auto simp add: snapshot_eq Deck_cards_def Deck_cards_body_def fair_deck_def deck_at_def Let_def)

lemma add_drawn_card_always_raises:
  assumes "c \<in> set (take (priv_draw_index d) (priv_cards d))" and "c \<notin> set (remaining d)"
  shows "Deck_add_card (PCard c) d =
    (Inl DeckCheatingError, d\<lparr>priv_cards := priv_cards d @ [c]\<rparr>)"
proof -
  have "c \<in> set (priv_cards d)" using assms(1) by (rule in_set_takeD)
  then show ?thesis using assms(2) by (simp add: Deck_add_card_PCard)
qed

section \<open>Ordering of cards\<close>

text \<open>
  Claim C5. For all ranks \<open>r1\<close>, \<open>r2\<close> and suits \<open>s1\<close>, \<open>s2\<close>, \<^verbatim>\<open>Card(r1, s1) < Card(r2, s2)\<close>
  returns true exactly when the value of \<open>r1\<close> is less than the value of \<open>r2\<close>, or the two
  values are equal and the value of \<open>s1\<close> is less than the value of \<open>s2\<close>.
\<close>

theorem Card_lt_rank_then_suit:
  "Card_lt (Card r1 s1) (PCard (Card r2 s2)) =
     Inr (rank_value r1 < rank_value r2 \<or>
          (rank_value r1 = rank_value r2 \<and> suit_value s1 < suit_value s2))"
  by auto

section \<open>The remaining cards hold no card twice\<close>

text \<open>
  Claim C1, as stated, fails: a card that was drawn is not among the remaining cards, so
  \<^verbatim>\<open>add_card\<close> appends it again, and a \<^verbatim>\<open>shuffle\<close> afterwards puts the cursor back to 0 with
  both copies among the remaining cards. Here the deck is built unshuffled, the Two of
  Clubs is drawn and added again, and the shuffle leaves the order as it is.
\<close>

theorem remaining_invariant_counterexample:
  "\<not> distinct (remaining (run_calls
       [Draw, AddCard (PCard (Card TWO CLUBS)), Shuffle (\<lambda>xs. xs)] (Deck_init False (\<lambda>xs. xs))))"
  by (simp add: run_calls_def Deck_draw_fresh_unshuffled add_drawn_two_clubs Deck_shuffle_def
      remaining_def set_build_cards)

text \<open>
  Claim C1, amended. In every deck reached from the constructor by \<^verbatim>\<open>draw\<close>, \<^verbatim>\<open>add_card\<close>
  and \<^verbatim>\<open>cards\<close> calls, whether they return or raise, and by \<^verbatim>\<open>shuffle\<close> calls made while the
  whole underlying sequence holds no card twice, the remaining cards hold no card twice.
\<close>

theorem remaining_distinct_clean_shuffles:
  assumes "shuffle \<longrightarrow> mset (\<pi> build_cards) = mset build_cards"
    and "shuffles_clean calls (Deck_init shuffle \<pi>)"
  shows "distinct (remaining (run_calls calls (Deck_init shuffle \<pi>)))"
proof -
  have "distinct (remaining (Deck_init shuffle \<pi>))"
    using assms(1) distinct_build_cards
    by (auto simp add: remaining_Deck_init dest: mset_eq_imp_distinct_iff)
  then show ?thesis using assms(2) by (rule run_calls_distinct)
qed

theorem remaining_distinct_clean_shuffles_witness:
  "mset (rev build_cards) = mset build_cards \<and>
   shuffles_clean [Shuffle rev, Draw, AddCard (PCard (Card ACE SPADES)), Draw, RemainingCards]
     (Deck_init True rev) \<and>
   distinct (remaining (run_calls
     [Shuffle rev, Draw, AddCard (PCard (Card ACE SPADES)), Draw, RemainingCards]
     (Deck_init True rev)))"
proof -
  have h1: "True \<longrightarrow> mset (rev build_cards) = mset build_cards" by simp
  have h2: "shuffles_clean
     [Shuffle rev, Draw, AddCard (PCard (Card ACE SPADES)), Draw, RemainingCards]
     (Deck_init True rev)"
    by (simp add: priv_cards_Deck_init distinct_build_cards)
  show ?thesis
    using remaining_distinct_clean_shuffles [OF h1 h2] h1 h2 by simp
qed

section \<open>Adding a card\<close>

text \<open>
  Claim C2, as stated, fails: when the card is equal to a remaining card, \<^verbatim>\<open>add_card\<close>
  raises \<^verbatim>\<open>DeckCheatingError\<close> from its own test, before the \<^verbatim>\<open>append\<close>. On the unshuffled
  fresh deck, adding the Two of Clubs raises and the underlying sequence is still the 52
  cards of the constructor.
\<close>

theorem add_remaining_card_counterexample:
  "Deck_add_card (PCard (Card TWO CLUBS)) (Deck_init False (\<lambda>xs. xs)) =
     (Inl DeckCheatingError, \<lparr>priv_cards = build_cards, priv_draw_index = 0\<rparr>)"
  by (simp add: Deck_init_unshuffled Deck_add_card_PCard remaining_def set_build_cards)

text \<open>
  Claim C2, amended. An \<^verbatim>\<open>add_card\<close> call that raises \<^verbatim>\<open>DeckCheatingError\<close> leaves the deck
  unchanged when the card is equal to a remaining card (the method's own test raises before
  the \<^verbatim>\<open>append\<close>); otherwise the exception comes from the scan of \<^verbatim>\<open>fair_deck\<close> after the
  method has run, and the card is already at the end of the underlying sequence.
\<close>

theorem add_card_cheating_effect:
  assumes "Deck_add_card (PCard c) d = (Inl DeckCheatingError, d')"
  shows "d' = (if c \<in> set (remaining d) then d else d\<lparr>priv_cards := priv_cards d @ [c]\<rparr>)"
  using assms by (auto simp add: Deck_add_card_PCard split: if_splits)

theorem add_card_cheating_effect_witness:
  "Deck_add_card (PCard (Card TWO CLUBS)) \<lparr>priv_cards = build_cards, priv_draw_index = 1\<rparr> =
     (Inl DeckCheatingError,
      \<lparr>priv_cards = build_cards @ [Card TWO CLUBS], priv_draw_index = 1\<rparr>) \<and>
   Card TWO CLUBS \<notin> set (remaining \<lparr>priv_cards = build_cards, priv_draw_index = 1\<rparr>) \<and>
   Deck_add_card (PCard (Card TWO CLUBS)) \<lparr>priv_cards = build_cards, priv_draw_index = 0\<rparr> =
     (Inl DeckCheatingError, \<lparr>priv_cards = build_cards, priv_draw_index = 0\<rparr>) \<and>
   Card TWO CLUBS \<in> set (remaining \<lparr>priv_cards = build_cards, priv_draw_index = 0\<rparr>)"
proof -
  let ?d1 = "\<lparr>priv_cards = build_cards, priv_draw_index = 1\<rparr>"
  let ?d0 = "\<lparr>priv_cards = build_cards, priv_draw_index = 0\<rparr>"
  have r1: "Card TWO CLUBS \<notin> set (remaining ?d1)"
    by (simp add: remaining_after_one_draw two_clubs_not_in_tl)
  have r0: "Card TWO CLUBS \<in> set (remaining ?d0)"
    by (simp add: remaining_def set_build_cards)
  have h1: "Deck_add_card (PCard (Card TWO CLUBS)) ?d1 =
      (Inl DeckCheatingError, snd (Deck_add_card (PCard (Card TWO CLUBS)) ?d1))"
    using add_drawn_two_clubs by simp
  have h0: "Deck_add_card (PCard (Card TWO CLUBS)) ?d0 =
      (Inl DeckCheatingError, snd (Deck_add_card (PCard (Card TWO CLUBS)) ?d0))"
    using r0 by (simp add: Deck_add_card_PCard)
  from add_card_cheating_effect [OF h1] r1
  have e1: "snd (Deck_add_card (PCard (Card TWO CLUBS)) ?d1) =
      \<lparr>priv_cards = build_cards @ [Card TWO CLUBS], priv_draw_index = 1\<rparr>"
    by simp
  from add_card_cheating_effect [OF h0] r0
  have e0: "snd (Deck_add_card (PCard (Card TWO CLUBS)) ?d0) = ?d0"
    by simp
  show ?thesis using h1 h0 e1 e0 r1 r0 by simp
qed

text \<open>
  Claim C3 at a concrete deck: the deck is built unshuffled and the Two of Clubs is drawn.
  The Two of Clubs is then equal to a drawn card and to no remaining card, yet
  \<^verbatim>\<open>add_card\<close> raises \<^verbatim>\<open>DeckCheatingError\<close>, after appending it: the method's own test looks at
  the remaining cards only, the scan of \<^verbatim>\<open>fair_deck\<close> at the whole underlying sequence.
\<close>

theorem add_drawn_card_raises:
  "Card TWO CLUBS \<in> set (take 1 (priv_cards (snd (Deck_draw (Deck_init False (\<lambda>xs. xs)))))) \<and>
   Card TWO CLUBS \<notin> set (remaining (snd (Deck_draw (Deck_init False (\<lambda>xs. xs))))) \<and>
   Deck_add_card (PCard (Card TWO CLUBS)) (snd (Deck_draw (Deck_init False (\<lambda>xs. xs)))) =
     (Inl DeckCheatingError,
      \<lparr>priv_cards = build_cards @ [Card TWO CLUBS], priv_draw_index = 1\<rparr>)"
proof -
  have "take (Suc 0) build_cards = [Card TWO CLUBS]"
    using build_cards_split by (metis take0 take_Suc_Cons)
  then show ?thesis
    by (simp add: Deck_draw_fresh_unshuffled add_drawn_two_clubs remaining_after_one_draw
        two_clubs_not_in_tl)
qed

section \<open>The snapshot of the remaining cards\<close>

text \<open>
  Claim C4 at a concrete deck, the one the calls above leave behind (\<^verbatim>\<open>add_card\<close> raised and
  the caller caught the exception): the remaining cards, which are the 51 undrawn cards and
  the Two of Clubs added at the end, hold no card twice, yet the
  \<^verbatim>\<open>cards\<close> property raises \<^verbatim>\<open>DeckCheatingError\<close>, because \<^verbatim>\<open>fair_deck\<close> scans the whole
  underlying sequence, where the drawn Two of Clubs still is.
\<close>

theorem cards_raises_on_drawn_duplicate:
  "distinct (remaining (snd (Deck_add_card (PCard (Card TWO CLUBS))
      (snd (Deck_draw (Deck_init False (\<lambda>xs. xs))))))) \<and>
   fst (Deck_cards (snd (Deck_add_card (PCard (Card TWO CLUBS))
      (snd (Deck_draw (Deck_init False (\<lambda>xs. xs))))))) = Inl DeckCheatingError"
proof -
  have "drop (Suc 0) (build_cards @ [Card TWO CLUBS]) = tl build_cards @ [Card TWO CLUBS]"
    using build_cards_split by (metis append_Cons drop0 drop_Suc_Cons)
  moreover have "distinct (tl build_cards)"
    using distinct_build_cards by (rule distinct_tl)
  ultimately show ?thesis
    by (simp add: Deck_draw_fresh_unshuffled add_drawn_two_clubs Deck_cards_eq remaining_def
        two_clubs_not_in_tl set_build_cards)
qed

section \<open>A fresh deck\<close>

text \<open>
  Claim C6. A deck just constructed holds 52 cards, no card twice and every combination
  of rank and suit, with the cursor at 0 (for a shuffled deck: whenever the shuffle permutes
  the list). Built with \<^verbatim>\<open>shuffle=False\<close> the cards are in the order of the enumeration: all
  ranks (values 2 to 14) of the first suit, then all ranks of the second, through suits of
  values 1 to 4.
\<close>

theorem fresh_deck_holds_every_card_once:
  assumes "shuffle \<longrightarrow> mset (\<pi> build_cards) = mset build_cards"
  shows "length (priv_cards (Deck_init shuffle \<pi>)) = 52 \<and>
         distinct (priv_cards (Deck_init shuffle \<pi>)) \<and>
         (\<forall>r s. Card r s \<in> set (priv_cards (Deck_init shuffle \<pi>))) \<and>
         priv_draw_index (Deck_init shuffle \<pi>) = 0 \<and>
         (\<not> shuffle \<longrightarrow>
            priv_cards (Deck_init shuffle \<pi>) =
              concat (map (\<lambda>s. map (\<lambda>r. Card r s) all_ranks) all_suits)) \<and>
         map suit_value all_suits = [1, 2, 3, 4] \<and>
         map rank_value all_ranks = [2, 3, 4, 5, 6, 7, 8, 9, 10, 11, 12, 13, 14]"
proof -
  let ?cs = "priv_cards (Deck_init shuffle \<pi>)"
  have m: "mset ?cs = mset build_cards"
    using assms by (simp add: priv_cards_Deck_init)
  have "length ?cs = 52"
    using m length_build_cards by (metis size_mset)
  moreover have "distinct ?cs"
    using m distinct_build_cards by (metis mset_eq_imp_distinct_iff)
  moreover have "set ?cs = UNIV"
    using m set_build_cards by (metis set_mset_mset)
  moreover have "\<not> shuffle \<longrightarrow> ?cs = concat (map (\<lambda>s. map (\<lambda>r. Card r s) all_ranks) all_suits)"
    by (simp add: priv_cards_Deck_init build_cards_concat)
  ultimately show ?thesis
    by (simp add: priv_draw_index_Deck_init all_suits_def all_ranks_def)
qed

theorem fresh_deck_holds_every_card_once_witness:
  "mset (rev build_cards) = mset build_cards \<and>
   length (priv_cards (Deck_init True rev)) = 52 \<and>
   distinct (priv_cards (Deck_init True rev)) \<and>
   Card ACE SPADES \<in> set (priv_cards (Deck_init True rev)) \<and>
   priv_draw_index (Deck_init True rev) = 0 \<and>
   priv_cards (Deck_init False rev) = concat (map (\<lambda>s. map (\<lambda>r. Card r s) all_ranks) all_suits)"
proof -
  show ?thesis
    using fresh_deck_holds_every_card_once [of True rev]
      fresh_deck_holds_every_card_once [of False rev]
    by simp
qed

section \<open>Drawing\<close>

text \<open>
  Claim C7. For \<open>N \<le> 52\<close>, the \<open>N\<close> first \<^verbatim>\<open>draw\<close> calls on a fresh deck return its \<open>N\<close>
  first cards in order and leave the cursor at \<open>N\<close> and a length of \<open>52 - N\<close>; while
  \<open>N < 52\<close> the next \<^verbatim>\<open>draw\<close> returns the card at the cursor and moves the cursor by one;
  after 52 draws a \<^verbatim>\<open>draw\<close> returns \<^verbatim>\<open>None\<close> and changes nothing.
\<close>

theorem draws_from_fresh_deck:
  assumes "shuffle \<longrightarrow> mset (\<pi> build_cards) = mset build_cards" and "N \<le> 52"
  shows "fst (draw_n N (Deck_init shuffle \<pi>)) = map Some (take N (priv_cards (Deck_init shuffle \<pi>))) \<and>
         priv_draw_index (snd (draw_n N (Deck_init shuffle \<pi>))) = N \<and>
         Deck_len (snd (draw_n N (Deck_init shuffle \<pi>))) = 52 - int N \<and>
         (N < 52 \<longrightarrow>
            Deck_draw (snd (draw_n N (Deck_init shuffle \<pi>))) =
              (Some (priv_cards (Deck_init shuffle \<pi>) ! N),
               (snd (draw_n N (Deck_init shuffle \<pi>)))\<lparr>priv_draw_index := N + 1\<rparr>)) \<and>
         Deck_draw (snd (draw_n 52 (Deck_init shuffle \<pi>))) =
           (None, snd (draw_n 52 (Deck_init shuffle \<pi>)))"
proof -
  let ?d = "Deck_init shuffle \<pi>"
  have "mset (priv_cards ?d) = mset build_cards"
    using assms(1) by (simp add: priv_cards_Deck_init)
  then have len: "length (priv_cards ?d) = 52"
    using length_build_cards by (metis size_mset)
  have idx: "priv_draw_index ?d = 0" by (rule priv_draw_index_Deck_init)
  have rem: "remaining ?d = priv_cards ?d" by (simp add: remaining_def idx)
  have dn: "draw_n n ?d = (map Some (take n (priv_cards ?d)), ?d\<lparr>priv_draw_index := n\<rparr>)"
    if "n \<le> 52" for n
    using draw_n_in_range [of ?d n] that len idx rem by simp
  have a: "fst (draw_n N ?d) = map Some (take N (priv_cards ?d))"
    using dn [OF assms(2)] by simp
  have b: "priv_draw_index (snd (draw_n N ?d)) = N"
    using dn [OF assms(2)] by simp
  have c: "Deck_len (snd (draw_n N ?d)) = 52 - int N"
    using dn [OF assms(2)] len by (simp add: Deck_len_def)
  have d: "N < 52 \<longrightarrow> Deck_draw (snd (draw_n N ?d)) =
      (Some (priv_cards ?d ! N), (snd (draw_n N ?d))\<lparr>priv_draw_index := N + 1\<rparr>)"
    using dn [OF assms(2)] len by (simp add: Deck_draw_def)
  have e: "Deck_draw (snd (draw_n 52 ?d)) = (None, snd (draw_n 52 ?d))"
    using dn [of 52] len by (simp add: Deck_draw_def)
  show ?thesis using a b c d e by blast
qed

theorem draws_from_fresh_deck_witness:
  "mset (rev build_cards) = mset build_cards \<and> (3::nat) \<le> 52 \<and>
   fst (draw_n 3 (Deck_init True rev)) = map Some (take 3 (priv_cards (Deck_init True rev))) \<and>
   priv_draw_index (snd (draw_n 3 (Deck_init True rev))) = 3 \<and>
   Deck_len (snd (draw_n 3 (Deck_init True rev))) = 49 \<and>
   Deck_draw (snd (draw_n 3 (Deck_init True rev))) =
     (Some (priv_cards (Deck_init True rev) ! 3),
      (snd (draw_n 3 (Deck_init True rev)))\<lparr>priv_draw_index := 4\<rparr>) \<and>
   Deck_draw (snd (draw_n 52 (Deck_init True rev))) = (None, snd (draw_n 52 (Deck_init True rev)))"
proof -
  show ?thesis
    using draws_from_fresh_deck [of True rev 3] by simp
qed

section \<open>Access by index\<close>

text \<open>
  Claim C8, as stated, fails in its last part: an index that is not an integer raises
  \<open>TypeError\<close>, the exception a comparison of a card with a value that is no card raises
  (the specification's \<^verbatim>\<open>TypeMismatch\<close>), and not \<open>ValueError\<close>, the exception the
  constructor of \<^verbatim>\<open>Card\<close> raises for a malformed argument (\<^verbatim>\<open>InvalidArgument\<close>).
\<close>

theorem getitem_type_error_counterexample:
  "Deck_getitem (PStr ''0'') (Deck_init False (\<lambda>xs. xs)) = Inl TypeError \<and>
   Card_eq (Card TWO CLUBS) (PStr ''0'') = Inl TypeError \<and>
   Card_init (PStr ''0'') (PStr ''0'') = Inl ValueError"
  by (simp add: Deck_getitem_def)

text \<open>
  Claim C8, amended. \<^verbatim>\<open>deck[i]\<close> returns the \<open>i\<close>-th remaining card when \<open>i\<close> is an integer
  with \<open>0 \<le> i < len(deck)\<close>, raises \<open>IndexError\<close> when \<open>i\<close> is an integer that is negative
  or at least \<open>len(deck)\<close>, and raises \<open>TypeError\<close> (\<^verbatim>\<open>TypeMismatch\<close>) when \<open>i\<close> is not an
  integer.
\<close>

theorem Deck_getitem_outcomes:
  "(as_int v = Some i \<and> 0 \<le> i \<and> i < Deck_len d \<longrightarrow> Deck_getitem v d = Inr (remaining d ! nat i)) \<and>
   (as_int v = Some i \<and> (i < 0 \<or> Deck_len d \<le> i) \<longrightarrow> Deck_getitem v d = Inl IndexError) \<and>
   (as_int v = None \<longrightarrow> Deck_getitem v d = Inl TypeError)"
proof -
  have "priv_cards d ! nat (int (priv_draw_index d) + i) = remaining d ! nat i"
    if "0 \<le> i" "i < Deck_len d"
  proof -
    have "priv_draw_index d + nat i \<le> length (priv_cards d)"
      using that by (simp add: Deck_len_def)
    then have "remaining d ! nat i = priv_cards d ! (priv_draw_index d + nat i)"
      unfolding remaining_def by simp
    moreover have "nat (int (priv_draw_index d) + i) = priv_draw_index d + nat i"
      using that(1) by simp
    ultimately show ?thesis by simp
  qed
  then show ?thesis by (auto simp add: Deck_getitem_def Let_def)
qed

theorem Deck_getitem_outcomes_witness:
  "Deck_getitem (PInt 1) (Deck_init False (\<lambda>xs. xs)) = Inr (remaining (Deck_init False (\<lambda>xs. xs)) ! 1) \<and>
   Deck_getitem (PInt (- 1)) (Deck_init False (\<lambda>xs. xs)) = Inl IndexError \<and>
   Deck_getitem (PInt 52) (Deck_init False (\<lambda>xs. xs)) = Inl IndexError \<and>
   Deck_getitem PNone (Deck_init False (\<lambda>xs. xs)) = Inl TypeError"
proof -
  let ?d = "Deck_init False (\<lambda>xs. xs)"
  have len: "Deck_len ?d = 52"
    by (simp add: Deck_len_def priv_cards_Deck_init priv_draw_index_Deck_init length_build_cards)
  show ?thesis
    using Deck_getitem_outcomes [of "PInt 1" 1 ?d] Deck_getitem_outcomes [of "PInt (- 1)" "- 1" ?d]
      Deck_getitem_outcomes [of "PInt 52" 52 ?d] Deck_getitem_outcomes [of PNone 0 ?d] len
    by simp
qed

section \<open>Statistics over six cards\<close>

text \<open>
  Claim C9, as stated, fails for \<^verbatim>\<open>max\<close>: the list the specification gives starts with the
  King of Clubs, in each of its readings (the King followed by both Aces, or by one of
  them), and the list the code returns does not.
\<close>

theorem cards_stats_max_counterexample:
  "stats_entry ''max'' (cards_stats
      [Card ACE SPADES, Card TWO HEARTS, Card ACE DIAMONDS, Card KING CLUBS,
       Card THREE SPADES, Card NINE HEARTS]
      [(''max'', PInt 2), (''min'', PInt 1), (''len'', PInt 1)]) \<noteq>
     Inr (Some (StatCards [Card KING CLUBS, Card ACE DIAMONDS, Card ACE SPADES])) \<and>
   stats_entry ''max'' (cards_stats
      [Card ACE SPADES, Card TWO HEARTS, Card ACE DIAMONDS, Card KING CLUBS,
       Card THREE SPADES, Card NINE HEARTS]
      [(''max'', PInt 2), (''min'', PInt 1), (''len'', PInt 1)]) \<noteq>
     Inr (Some (StatCards [Card KING CLUBS, Card ACE DIAMONDS])) \<and>
   stats_entry ''max'' (cards_stats
      [Card ACE SPADES, Card TWO HEARTS, Card ACE DIAMONDS, Card KING CLUBS,
       Card THREE SPADES, Card NINE HEARTS]
      [(''max'', PInt 2), (''min'', PInt 1), (''len'', PInt 1)]) \<noteq>
     Inr (Some (StatCards [Card KING CLUBS, Card ACE SPADES]))"
  by (simp add: cards_stats_def stats_entry_def sorted_six)

text \<open>
  Claim C9, amended. \<^verbatim>\<open>cards_stats\<close> over the six cards with \<^verbatim>\<open>max=2, min=1, len=1\<close> returns a
  dictionary where \<^verbatim>\<open>max\<close> is the two highest cards in ascending order, the Ace of Diamonds
  then the Ace of Spades, \<^verbatim>\<open>min\<close> is the Two of Hearts alone and \<^verbatim>\<open>len\<close> is 6.
\<close>

theorem cards_stats_demo:
  "stats_entry ''max'' (cards_stats
      [Card ACE SPADES, Card TWO HEARTS, Card ACE DIAMONDS, Card KING CLUBS,
       Card THREE SPADES, Card NINE HEARTS]
      [(''max'', PInt 2), (''min'', PInt 1), (''len'', PInt 1)]) =
     Inr (Some (StatCards [Card ACE DIAMONDS, Card ACE SPADES])) \<and>
   stats_entry ''min'' (cards_stats
      [Card ACE SPADES, Card TWO HEARTS, Card ACE DIAMONDS, Card KING CLUBS,
       Card THREE SPADES, Card NINE HEARTS]
      [(''max'', PInt 2), (''min'', PInt 1), (''len'', PInt 1)]) =
     Inr (Some (StatCards [Card TWO HEARTS])) \<and>
   stats_entry ''len'' (cards_stats
      [Card ACE SPADES, Card TWO HEARTS, Card ACE DIAMONDS, Card KING CLUBS,
       Card THREE SPADES, Card NINE HEARTS]
      [(''max'', PInt 2), (''min'', PInt 1), (''len'', PInt 1)]) =
     Inr (Some (StatLen 6))"
  by (simp add: cards_stats_def stats_entry_def sorted_six)

section \<open>The snapshot is a copy\<close>

text \<open>
  Claim C10. The list the \<^verbatim>\<open>cards\<close> property returns is a new list object: its address is
  not the address of the deck's own list nor of any list there was before the call, and it
  holds the remaining cards. Whatever the caller then does to it (any sequence \<open>ms\<close> of
  appends, removals and replacements), the deck's own list is untouched, and so are, at
  every position \<open>k\<close> of the cursor, the length, the card at every index \<open>i\<close>, the outcome
  of a draw and the next snapshot.
\<close>

theorem cards_snapshot_is_a_copy:
  assumes "cards_ref self < length h" and "Deck_cards_obj self h = (Inr a, h')"
  shows "a \<noteq> cards_ref self \<and> length h \<le> a \<and> a < length h' \<and>
         h' ! a = drop (draw_index self) (h ! cards_ref self) \<and>
         fold (mutate a) ms h' ! cards_ref self = h ! cards_ref self \<and>
         Deck_len_obj (self\<lparr>draw_index := k\<rparr>) (fold (mutate a) ms h') =
           Deck_len_obj (self\<lparr>draw_index := k\<rparr>) h \<and>
         Deck_getitem_obj i (self\<lparr>draw_index := k\<rparr>) (fold (mutate a) ms h') =
           Deck_getitem_obj i (self\<lparr>draw_index := k\<rparr>) h \<and>
         Deck_draw_obj (self\<lparr>draw_index := k\<rparr>) (fold (mutate a) ms h') =
           Deck_draw_obj (self\<lparr>draw_index := k\<rparr>) h \<and>
         snapshot (self\<lparr>draw_index := k\<rparr>) (fold (mutate a) ms h') =
           snapshot (self\<lparr>draw_index := k\<rparr>) h"
proof -
  let ?rest = "drop (draw_index self) (h ! cards_ref self)"
  have a: "a = Suc (length h)" and h': "h' = h @ [?rest, ?rest]"
    using assms by (simp_all add: Deck_cards_obj_eq split: if_splits)
  have ne: "a \<noteq> cards_ref self" using a assms(1) by simp
  have fresh: "length h \<le> a" "a < length h'" using a h' by simp_all
  have content: "h' ! a = ?rest" using a h' by (simp add: nth_append)
  have "fold (mutate a) ms h' ! cards_ref self = h' ! cards_ref self"
    using ne by (simp add: nth_fold_mutate_other)
  then have same: "fold (mutate a) ms h' ! cards_ref self = h ! cards_ref self"
    using h' assms(1) by (simp add: nth_append)
  have wf': "cards_ref (self\<lparr>draw_index := k\<rparr>) < length (fold (mutate a) ms h')"
    using assms(1) h' by (simp add: length_fold_mutate)
  have wf: "cards_ref (self\<lparr>draw_index := k\<rparr>) < length h"
    using assms(1) by simp
  have len: "Deck_len_obj (self\<lparr>draw_index := k\<rparr>) (fold (mutate a) ms h') =
      Deck_len_obj (self\<lparr>draw_index := k\<rparr>) h"
    using same by (simp add: Deck_len_obj_def)
  have get: "Deck_getitem_obj i (self\<lparr>draw_index := k\<rparr>) (fold (mutate a) ms h') =
      Deck_getitem_obj i (self\<lparr>draw_index := k\<rparr>) h"
    using same by (simp add: Deck_getitem_obj_def Deck_len_obj_def split: option.splits)
  have drw: "Deck_draw_obj (self\<lparr>draw_index := k\<rparr>) (fold (mutate a) ms h') =
      Deck_draw_obj (self\<lparr>draw_index := k\<rparr>) h"
    using same by (simp add: Deck_draw_obj_def)
  have snp: "snapshot (self\<lparr>draw_index := k\<rparr>) (fold (mutate a) ms h') =
      snapshot (self\<lparr>draw_index := k\<rparr>) h"
    using same by (simp add: snapshot_eq [OF wf'] snapshot_eq [OF wf])
  show ?thesis using ne fresh content same len get drw snp by blast
qed

theorem cards_snapshot_is_a_copy_witness:
  "cards_ref \<lparr>cards_ref = 0, draw_index = 1\<rparr> < length [build_cards] \<and>
   Deck_cards_obj \<lparr>cards_ref = 0, draw_index = 1\<rparr> [build_cards] =
     (Inr 2, [build_cards, tl build_cards, tl build_cards]) \<and>
   fold (mutate 2) [Append (Card TWO CLUBS), Remove 0, Replace 0 (Card ACE SPADES)]
     [build_cards, tl build_cards, tl build_cards] ! 0 = build_cards \<and>
   Deck_len_obj \<lparr>cards_ref = 0, draw_index = 1\<rparr>
     (fold (mutate 2) [Append (Card TWO CLUBS), Remove 0, Replace 0 (Card ACE SPADES)]
       [build_cards, tl build_cards, tl build_cards]) =
     Deck_len_obj \<lparr>cards_ref = 0, draw_index = 1\<rparr> [build_cards] \<and>
   Deck_getitem_obj (PInt 0) \<lparr>cards_ref = 0, draw_index = 1\<rparr>
     (fold (mutate 2) [Append (Card TWO CLUBS), Remove 0, Replace 0 (Card ACE SPADES)]
       [build_cards, tl build_cards, tl build_cards]) =
     Deck_getitem_obj (PInt 0) \<lparr>cards_ref = 0, draw_index = 1\<rparr> [build_cards] \<and>
   Deck_draw_obj \<lparr>cards_ref = 0, draw_index = 1\<rparr>
     (fold (mutate 2) [Append (Card TWO CLUBS), Remove 0, Replace 0 (Card ACE SPADES)]
       [build_cards, tl build_cards, tl build_cards]) =
     Deck_draw_obj \<lparr>cards_ref = 0, draw_index = 1\<rparr> [build_cards] \<and>
   snapshot \<lparr>cards_ref = 0, draw_index = 1\<rparr>
     (fold (mutate 2) [Append (Card TWO CLUBS), Remove 0, Replace 0 (Card ACE SPADES)]
       [build_cards, tl build_cards, tl build_cards]) =
     snapshot \<lparr>cards_ref = 0, draw_index = 1\<rparr> [build_cards]"
proof -
  let ?self = "\<lparr>cards_ref = 0, draw_index = 1\<rparr>"
  let ?ms = "[Append (Card TWO CLUBS), Remove 0, Replace 0 (Card ACE SPADES)]"
  have wf: "cards_ref ?self < length [build_cards]" by simp
  have nodup: "find_duplicate {} build_cards = None"
    by (simp add: find_duplicate_None_iff distinct_build_cards)
  have call: "Deck_cards_obj ?self [build_cards] =
      (Inr 2, [build_cards, tl build_cards, tl build_cards])"
    by (simp add: Deck_cards_obj_eq nodup drop_Suc)
  have same: "?self\<lparr>draw_index := 1\<rparr> = ?self" by simp
  note t = cards_snapshot_is_a_copy [OF wf call, of ?ms 1 "PInt 0", unfolded same]
  have cell: "fold (mutate 2) ?ms [build_cards, tl build_cards, tl build_cards] ! 0 =
      build_cards"
    by (simp add: mutate_def)
  show ?thesis
    using t cell wf call by blast
qed

end
